theory Spec2Isabelle
  imports Complex_Main
begin

section \<open>Strings and character classes\<close>

text \<open>
  The notebook works on Python \<open>str\<close> values. A value string is modelled as a
  \<open>string\<close> whose characters stand for the code points 0 to 255; the character
  classes below are Python's on that range. Floating-point numbers are modelled as
  exact reals.
\<close>

definition PUNCT_PATTERN :: string where
  "PUNCT_PATTERN = ''-/():.,;''"

definition is_upper :: "char \<Rightarrow> bool" where
  \<comment> \<open>the code points that \<open>str.lower\<close> changes: A-Z and the Latin-1 capitals\<close>
  "is_upper c = (let n = (of_char c :: nat) in
     (65 \<le> n \<and> n \<le> 90) \<or> (192 \<le> n \<and> n \<le> 222 \<and> n \<noteq> 215))"

definition lower_char :: "char \<Rightarrow> char" where
  "lower_char c = (if is_upper c then char_of ((of_char c :: nat) + 32) else c)"

definition lower :: "string \<Rightarrow> string" where
  \<comment> \<open>\<open>x.lower()\<close>\<close>
  "lower x = map lower_char x"

definition punct_remover :: "char \<Rightarrow> char" where
  \<comment> \<open>\<open>str.maketrans(PUNCT_PATTERN, " " * len(PUNCT_PATTERN))\<close>\<close>
  "punct_remover c = (if c \<in> set PUNCT_PATTERN then CHR '' '' else c)"

definition translate :: "string \<Rightarrow> string" where
  \<comment> \<open>\<open>x.translate(punct_remover)\<close>\<close>
  "translate x = map punct_remover x"

definition isspace :: "char \<Rightarrow> bool" where
  \<comment> \<open>the separators of \<open>str.split()\<close>: tab to carriage return, the four
      information separators, space, next-line and no-break space\<close>
  "isspace c = (let n = (of_char c :: nat) in
     (9 \<le> n \<and> n \<le> 13) \<or> (28 \<le> n \<and> n \<le> 32) \<or> n = 133 \<or> n = 160)"

fun split_from :: "string \<Rightarrow> string \<Rightarrow> string list" where
  \<comment> \<open>\<open>split_from w s\<close>: the words of \<open>s\<close>, where \<open>w\<close> is the word read so far\<close>
  "split_from w [] = (if w = [] then [] else [w])"
| "split_from w (c # cs) =
     (if isspace c then (if w = [] then split_from [] cs else w # split_from [] cs)
      else split_from (w @ [c]) cs)"

definition split :: "string \<Rightarrow> string list" where
  \<comment> \<open>\<open>x.split()\<close>: split on runs of whitespace, no empty words\<close>
  "split x = split_from [] x"

definition is_decimal :: "char \<Rightarrow> bool" where
  \<comment> \<open>the regular expression class \<open>\d\<close>\<close>
  "is_decimal c = (c \<in> set ''0123456789'')"

definition search_digit :: "string \<Rightarrow> bool" where
  \<comment> \<open>\<open>re.search(r"\d", y)\<close> finds a match\<close>
  "search_digit y = list_ex is_decimal y"

section \<open>Text tokenizer\<close>

definition words_from_values :: "string list \<Rightarrow> string list" where
  \<comment> \<open>\<open>[y for y in sum([x.lower().translate(punct_remover).split() for x in values], [])
        if y and not re.search(r"\d", y)]\<close>\<close>
  "words_from_values values' =
     filter (\<lambda>y. y \<noteq> [] \<and> \<not> search_digit y)
       (concat (map (\<lambda>x. split (translate (lower x))) values'))"

section \<open>Rows, errors and numbers\<close>

record row =
  row_values :: "string list"
  type :: bool

datatype error = ZeroDivisionError | ValueError

text \<open>
  A feature is a floating-point number, \<open>np.nan\<close> being the sentinel of a missing
  value. Python's \<open>/\<close> on its own numbers raises on a zero divisor; the same
  operator on a NumPy scalar only warns and returns \<open>nan\<close> or \<open>inf\<close>.
\<close>

datatype npfloat = Num real | PosInf | NaN

definition truediv :: "real \<Rightarrow> real \<Rightarrow> error + real" where
  "truediv a b = (if b = 0 then Inl ZeroDivisionError else Inr (a / b))"

definition np_true_divide :: "nat \<Rightarrow> nat \<Rightarrow> npfloat" where
  "np_true_divide a b =
     (if b \<noteq> 0 then Num (real a / real b) else if a = 0 then NaN else PosInf)"

text \<open>
  \<open>np.array(row['values'])\<close> stores the strings of a row in a fixed-width array, and
  an element read back from it has lost its trailing NUL characters. The three
  feature loops work on this array; \<open>get_words\<close> reads the lists themselves.
\<close>

definition np_str :: "string \<Rightarrow> string" where
  "np_str x = rev (dropWhile (\<lambda>c. c = CHR 0x00) (rev x))"

definition np_array :: "string list \<Rightarrow> string list" where
  "np_array values' = map np_str values'"

section \<open>Word popularity counter\<close>

fun get_words_loop :: "row list \<Rightarrow> string list \<Rightarrow> string list" where
  \<comment> \<open>\<open>for obj in data: words.extend(words_from_values(obj['values']))\<close>\<close>
  "get_words_loop [] words = words"
| "get_words_loop (obj # data) words =
     get_words_loop data (words @ words_from_values (row_values obj))"

definition get_words :: "row list \<Rightarrow> string list" where
  "get_words data = get_words_loop data []"

text \<open>
  A dictionary is an association list in insertion order. \<open>Counter(words)\<close> adds the
  words one by one: a new word enters at the end with count 1, a known word has its
  count increased in place.
\<close>

fun counter_add :: "(string \<times> nat) list \<Rightarrow> string \<Rightarrow> (string \<times> nat) list" where
  "counter_add [] w = [(w, 1)]"
| "counter_add ((k, n) # kvs) w =
     (if k = w then (k, n + 1) # kvs else (k, n) # counter_add kvs w)"

definition Counter :: "string list \<Rightarrow> (string \<times> nat) list" where
  "Counter words = fold (\<lambda>w c. counter_add c w) words []"

fun popularity_items :: "nat \<Rightarrow> (string \<times> nat) list \<Rightarrow> error + (string \<times> real) list" where
  \<comment> \<open>\<open>{x: y / n for x, y in items}\<close>: one division for each item\<close>
  "popularity_items n [] = Inr []"
| "popularity_items n ((x, y) # items) =
     (case truediv (real y) (real n) of
        Inl e \<Rightarrow> Inl e
      | Inr v \<Rightarrow> (case popularity_items n items of
                   Inl e \<Rightarrow> Inl e
                 | Inr rest \<Rightarrow> Inr ((x, v) # rest)))"

definition words_counter :: "row list \<Rightarrow> error + (string \<times> real) list" where
  "words_counter data =
     (let words = get_words data in popularity_items (length words) (Counter words))"

definition dict_get :: "(string \<times> real) list \<Rightarrow> string \<Rightarrow> real \<Rightarrow> real" where
  \<comment> \<open>\<open>d.get(word, dflt)\<close>\<close>
  "dict_get d word dflt = (case map_of d word of None \<Rightarrow> dflt | Some v \<Rightarrow> v)"

section \<open>Word weight scorer\<close>

definition data_headers :: "row list \<Rightarrow> row list" where
  "data_headers data_sampled = filter (\<lambda>x. type x) data_sampled"

definition data_others :: "row list \<Rightarrow> row list" where
  "data_others data_sampled = filter (\<lambda>x. \<not> type x) data_sampled"

definition all_words :: "row list \<Rightarrow> string set" where
  "all_words data_sampled = set (get_words data_sampled)"

definition weight :: "(string \<times> real) list \<Rightarrow> (string \<times> real) list \<Rightarrow> string \<Rightarrow> error + real" where
  \<comment> \<open>the body of the loop over \<open>all_words\<close>; \<open>h\<close> and \<open>o'\<close> are its \<open>h\<close> and \<open>o\<close>\<close>
  "weight header_words other_words word =
     (let h = dict_get header_words word 0;
          o' = dict_get other_words word 0
      in truediv (h - o') (h + o'))"

fun word_weights_loop ::
  "(string \<times> real) list \<Rightarrow> (string \<times> real) list \<Rightarrow> string list \<Rightarrow>
   (string \<rightharpoonup> real) \<Rightarrow> error + (string \<rightharpoonup> real)" where
  \<comment> \<open>the loop, over the words of \<open>all_words\<close> in the order the set yields them\<close>
  "word_weights_loop header_words other_words [] word_weights = Inr word_weights"
| "word_weights_loop header_words other_words (word # rest) word_weights =
     (case weight header_words other_words word of
        Inl e \<Rightarrow> Inl e
      | Inr v \<Rightarrow> word_weights_loop header_words other_words rest (word_weights(word \<mapsto> v)))"

section \<open>Feature extractor\<close>

subsection \<open>First features: sparsity, floats, long integers\<close>

definition isdigit_char :: "char \<Rightarrow> bool" where
  \<comment> \<open>\<open>str.isdigit\<close> on one character: the decimal digits and the superscripts
      one, two and three\<close>
  "isdigit_char c = (is_decimal c \<or> (of_char c :: nat) \<in> {178, 179, 185})"

definition isdigit :: "string \<Rightarrow> bool" where
  "isdigit s = (s \<noteq> [] \<and> list_all isdigit_char s)"

definition replace_dot :: "string \<Rightarrow> string" where
  \<comment> \<open>\<open>x.replace('.', '', 1)\<close>: the first point is removed\<close>
  "replace_dot x = remove1 CHR ''.'' x"

definition is_float :: "string \<Rightarrow> bool" where
  \<comment> \<open>\<open>lambda x: x.replace('.', '', 1).isdigit() and '.' in x\<close>\<close>
  "is_float x = (isdigit (replace_dot x) \<and> CHR ''.'' \<in> set x)"

definition is_long_int :: "string \<Rightarrow> bool" where
  \<comment> \<open>\<open>lambda x: x.replace('.', '', 1).isdigit() and len(x) > 4\<close>\<close>
  "is_long_int x = (isdigit (replace_dot x) \<and> length x > 4)"

definition np_vectorize :: "(string \<Rightarrow> bool) \<Rightarrow> string list \<Rightarrow> error + bool list" where
  \<comment> \<open>\<open>np.vectorize(f)(values)\<close>, no \<open>otypes\<close> given: an input of size 0 is refused\<close>
  "np_vectorize f values' = (if values' = [] then Inl ValueError else Inr (map f values'))"

definition count_true :: "bool list \<Rightarrow> nat" where
  \<comment> \<open>the sum of an array of booleans\<close>
  "count_true bs = length (filter (\<lambda>b. b) bs)"

record first_features =
  f_type :: bool
  f_size :: nat
  f_sparsity :: npfloat
  f_floats_N :: npfloat
  f_long_ints :: npfloat

definition first_features_of :: "row \<Rightarrow> error + first_features" where
  \<comment> \<open>one round of the first feature loop, on \<open>values = np.array(row['values'])\<close>,
      in the order of its statements; the counts are NumPy scalars, so the three
      divisions are NumPy's\<close>
  "first_features_of r =
     (let values' = np_array (row_values r);
          size' = length values';
          sparsity = np_true_divide (count_true (map (\<lambda>v. v = []) values')) (length values')
      in case np_vectorize is_float values' of
           Inl e \<Rightarrow> Inl e
         | Inr fs \<Rightarrow>
             (let floats_N = np_true_divide (count_true fs) (length values')
              in case np_vectorize is_long_int values' of
                   Inl e \<Rightarrow> Inl e
                 | Inr ls \<Rightarrow>
                     (let long_ints = np_true_divide (count_true ls) (length values')
                      in Inr \<lparr>f_type = type r, f_size = size', f_sparsity = sparsity,
                              f_floats_N = floats_N, f_long_ints = long_ints\<rparr>)))"

subsection \<open>Word weight aggregates\<close>





subsection \<open>Date patterns\<close>











section \<open>Properties of the tokenizer\<close>

lemma split_from_nonempty: "t \<in> set (split_from w s) \<Longrightarrow> t \<noteq> []"
  by (induction w s rule: split_from.induct) (auto split: if_splits)

lemma split_from_chars: "t \<in> set (split_from w s) \<Longrightarrow> set t \<subseteq> set w \<union> set s"
proof (induction s arbitrary: w)
  case Nil
  then show ?case by (simp split: if_splits)
next
  case (Cons c cs)
  show ?case
  proof (cases "isspace c")
    case True
    with Cons.prems have "t = w \<or> t \<in> set (split_from [] cs)"
      by (simp split: if_splits)
    then show ?thesis
    proof
      assume "t = w" then show ?thesis by auto
    next
      assume "t \<in> set (split_from [] cs)"
      from Cons.IH [OF this] show ?thesis by auto
    qed
  next
    case False
    with Cons.prems have "t \<in> set (split_from (w @ [c]) cs)" by simp
    from Cons.IH [OF this] show ?thesis by auto
  qed
qed

lemma split_from_nospace:
  "t \<in> set (split_from w s) \<Longrightarrow> \<forall>c \<in> set w. \<not> isspace c \<Longrightarrow> \<forall>c \<in> set t. \<not> isspace c"
proof (induction s arbitrary: w)
  case Nil
  then show ?case by (simp split: if_splits)
next
  case (Cons a cs)
  show ?case
  proof (cases "isspace a")
    case True
    with Cons.prems(1) have "t = w \<or> t \<in> set (split_from [] cs)"
      by (simp split: if_splits)
    then show ?thesis
    proof
      assume "t = w" with Cons.prems(2) show ?thesis by simp
    next
      assume "t \<in> set (split_from [] cs)"
      then show ?thesis by (rule Cons.IH) simp
    qed
  next
    case False
    with Cons.prems(1) have "t \<in> set (split_from (w @ [a]) cs)" by simp
    then show ?thesis
      by (rule Cons.IH) (use False Cons.prems(2) in simp)
  qed
qed

lemma split_from_one:
  "\<forall>c \<in> set s. \<not> isspace c \<Longrightarrow> split_from w s = (if w @ s = [] then [] else [w @ s])"
  by (induction s arbitrary: w) simp_all

lemma punct_remover_clean: "punct_remover c \<notin> set PUNCT_PATTERN"
  by (simp add: punct_remover_def PUNCT_PATTERN_def)

lemma punct_remover_id: "c \<notin> set PUNCT_PATTERN \<Longrightarrow> punct_remover c = c"
  by (simp add: punct_remover_def)

lemma lower_char_not_upper: "\<not> is_upper (lower_char c)"
proof (cases "is_upper c")
  case True
  then have "(of_char c :: nat) + 32 < 256"
    by (auto simp: is_upper_def Let_def)
  then have "(of_char (char_of ((of_char c :: nat) + 32)) :: nat) = of_char c + 32"
    by simp
  with True show ?thesis
    by (auto simp: lower_char_def is_upper_def Let_def)
next
  case False
  then show ?thesis by (simp add: lower_char_def)
qed

lemma lower_char_fixed: "\<not> is_upper c \<Longrightarrow> lower_char c = c"
  by (simp add: lower_char_def)

lemma space_not_upper: "\<not> is_upper CHR '' ''"
  by (simp add: is_upper_def)

lemma punct_remover_not_upper: "\<not> is_upper c \<Longrightarrow> \<not> is_upper (punct_remover c)"
  by (simp add: punct_remover_def space_not_upper)

text \<open>What is known of every word that the comprehension keeps.\<close>

lemma token_facts:
  assumes "t \<in> set (words_from_values vs)"
  shows "t \<noteq> []" and "\<not> search_digit t"
    and "\<forall>c \<in> set t. \<not> isspace c"
    and "\<forall>c \<in> set t. c \<notin> set PUNCT_PATTERN"
    and "\<forall>c \<in> set t. \<not> is_upper c"
proof -
  from assms obtain x where x: "x \<in> set vs" and t: "t \<in> set (split (translate (lower x)))"
    and keep: "t \<noteq> []" "\<not> search_digit t"
    by (auto simp: words_from_values_def)
  show "t \<noteq> []" "\<not> search_digit t" by (rule keep)+
  from t show "\<forall>c \<in> set t. \<not> isspace c"
    using split_from_nospace [of t "[]"] by (simp add: split_def)
  from t have sub: "set t \<subseteq> set (translate (lower x))"
    using split_from_chars [of t "[]"] by (simp add: split_def)
  show "\<forall>c \<in> set t. c \<notin> set PUNCT_PATTERN"
    using sub by (auto simp: translate_def punct_remover_clean)
  show "\<forall>c \<in> set t. \<not> is_upper c"
    using sub
    by (auto simp: translate_def lower_def punct_remover_not_upper lower_char_not_upper)
qed

lemma retokenize_word:
  assumes "t \<in> set (words_from_values vs)"
  shows "split (translate (lower t)) = [t]"
proof -
  have "lower t = t"
    using token_facts(5) [OF assms] by (simp add: lower_def lower_char_fixed map_idI)
  moreover have "translate t = t"
    using token_facts(4) [OF assms] by (simp add: translate_def punct_remover_id map_idI)
  ultimately show ?thesis
    using token_facts(1,3) [OF assms] by (simp add: split_def split_from_one)
qed

text \<open>
  C7: every word returned by the tokenizer has no decimal digit and none of the
  characters of \<open>PUNCT_PATTERN\<close>, and the empty sequence of values gives no words.
\<close>

theorem words_from_values_clean:
  "(\<forall>t \<in> set (words_from_values vs). \<forall>c \<in> set t.
      \<not> is_decimal c \<and> c \<notin> set PUNCT_PATTERN)
   \<and> words_from_values [] = []"
proof -
  have "\<not> is_decimal c \<and> c \<notin> set PUNCT_PATTERN"
    if "t \<in> set (words_from_values vs)" and "c \<in> set t" for t c
    using token_facts(2,4) [OF that(1)] that(2) by (auto simp: search_digit_def list_ex_iff)
  moreover have "words_from_values [] = []"
    by (simp add: words_from_values_def)
  ultimately show ?thesis by blast
qed

theorem words_from_values_clean_witness:
  "words_from_values [''E-Mail (Work)'', ''Age2'', '''', ''1990''] = [''e'', ''mail'', ''work'']
   \<and> \<not> is_decimal CHR ''m'' \<and> CHR ''m'' \<notin> set PUNCT_PATTERN"
proof -
  have w: "words_from_values [''E-Mail (Work)'', ''Age2'', '''', ''1990''] = [''e'', ''mail'', ''work'']"
    by code_simp
  have "''mail'' \<in> set (words_from_values [''E-Mail (Work)'', ''Age2'', '''', ''1990''])"
    by (simp add: w)
  moreover have "CHR ''m'' \<in> set ''mail''" by simp
  ultimately have "\<not> is_decimal CHR ''m'' \<and> CHR ''m'' \<notin> set PUNCT_PATTERN"
    using words_from_values_clean [of "[''E-Mail (Work)'', ''Age2'', '''', ''1990'']"] by blast
  with w show ?thesis by simp
qed

text \<open>
  C8: the tokenizer applied to its own output, each word taken as a value, returns
  that output.
\<close>

theorem words_from_values_idempotent:
  "words_from_values (words_from_values vs) = words_from_values vs"
proof -
  let ?T = "words_from_values vs"
  have "map (\<lambda>x. split (translate (lower x))) ?T = map (\<lambda>x. [x]) ?T"
    by (rule map_cong [OF refl]) (rule retokenize_word)
  then have "concat (map (\<lambda>x. split (translate (lower x))) ?T) = concat (map (\<lambda>x. [x]) ?T)"
    by (rule arg_cong)
  then have "concat (map (\<lambda>x. split (translate (lower x))) ?T) = ?T"
    by simp
  then have "words_from_values ?T = filter (\<lambda>y. y \<noteq> [] \<and> \<not> search_digit y) ?T"
    by (simp only: words_from_values_def [of ?T])
  also have "\<dots> = ?T"
  proof (rule filter_True)
    show "\<forall>y \<in> set ?T. y \<noteq> [] \<and> \<not> search_digit y"
      using token_facts(1,2) [of _ vs] by blast
  qed
  finally show ?thesis .
qed

theorem words_from_values_idempotent_witness:
  "words_from_values (words_from_values [''Name'', ''Age'', ''1990'']) = [''name'', ''age'']"
proof -
  have "words_from_values [''Name'', ''Age'', ''1990''] = [''name'', ''age'']"
    by code_simp
  then show ?thesis
    using words_from_values_idempotent [of "[''Name'', ''Age'', ''1990'']"] by simp
qed

section \<open>Properties of the word popularity counter\<close>

lemma get_words_loop_eq:
  "get_words_loop data words = words @ concat (map (\<lambda>obj. words_from_values (row_values obj)) data)"
  by (induction data arbitrary: words) simp_all

lemma get_words_eq:
  "get_words data = concat (map (\<lambda>obj. words_from_values (row_values obj)) data)"
  by (simp add: get_words_def get_words_loop_eq)

lemma map_of_counter_add:
  "map_of (counter_add c w) k =
     (if k = w then Some (case map_of c w of None \<Rightarrow> 1 | Some n \<Rightarrow> n + 1) else map_of c k)"
  by (induction c w rule: counter_add.induct) auto

lemma keys_counter_add: "fst ` set (counter_add c w) = insert w (fst ` set c)"
  by (induction c w rule: counter_add.induct) auto

lemma distinct_counter_add:
  "distinct (map fst c) \<Longrightarrow> distinct (map fst (counter_add c w))"
proof (induction c w rule: counter_add.induct)
  case (1 w)
  then show ?case by simp
next
  case (2 k n kvs w)
  then show ?case
    using keys_counter_add [of kvs w] by (auto simp del: keys_counter_add)
qed

lemma sum_counter_add:
  "sum_list (map snd (counter_add c w)) = sum_list (map snd c) + 1"
  by (induction c w rule: counter_add.induct) simp_all

lemma map_of_fold_counter:
  "map_of (fold (\<lambda>w c. counter_add c w) ws c) k =
     (case map_of c k of
        None \<Rightarrow> (if k \<in> set ws then Some (count_list ws k) else None)
      | Some m \<Rightarrow> Some (m + count_list ws k))"
proof (induction ws arbitrary: c)
  case Nil
  then show ?case by (simp split: option.split)
next
  case (Cons w ws)
  show ?case
    by (simp add: Cons.IH map_of_counter_add count_list_0_iff split: option.split)
qed

lemma distinct_fold_counter:
  "distinct (map fst c) \<Longrightarrow> distinct (map fst (fold (\<lambda>w c. counter_add c w) ws c))"
  by (induction ws arbitrary: c) (simp_all add: distinct_counter_add)

lemma sum_fold_counter:
  "sum_list (map snd (fold (\<lambda>w c. counter_add c w) ws c)) = sum_list (map snd c) + length ws"
  by (induction ws arbitrary: c) (simp_all add: sum_counter_add)

lemma map_of_Counter:
  "map_of (Counter ws) k = (if k \<in> set ws then Some (count_list ws k) else None)"
  by (simp add: Counter_def map_of_fold_counter)

lemma distinct_Counter: "distinct (map fst (Counter ws))"
  by (simp add: Counter_def distinct_fold_counter)

lemma sum_Counter: "sum_list (map snd (Counter ws)) = length ws"
  by (simp add: Counter_def sum_fold_counter)

lemma Counter_Nil: "Counter [] = []"
  by (simp add: Counter_def)

lemma popularity_items_ok:
  "n \<noteq> 0 \<Longrightarrow> popularity_items n items = Inr (map (\<lambda>(x, y). (x, real y / real n)) items)"
  by (induction n items rule: popularity_items.induct) (simp_all add: truediv_def)

lemma sum_popularity:
  "sum_list (map snd (map (\<lambda>(x, y). (x, real y / real n)) items))
     = real (sum_list (map snd items)) / real n"
  by (induction items) (auto simp: add_divide_distrib)

lemma map_of_popularity:
  "map_of (map (\<lambda>(x, y). (x, real y / real n)) items) k
     = map_option (\<lambda>y. real y / real n) (map_of items k)"
  by (induction items) auto

lemma fst_popularity:
  "map fst (map (\<lambda>(x, y). (x, real y / real n)) items) = map fst items"
  by (induction items) auto

text \<open>The popularity counter never raises, and what it returns.\<close>

lemma words_counter_eq:
  "words_counter data =
     Inr (map (\<lambda>(x, y). (x, real y / real (length (get_words data)))) (Counter (get_words data)))"
proof (cases "get_words data = []")
  case True
  then show ?thesis by (simp add: words_counter_def Counter_Nil Let_def)
next
  case False
  then show ?thesis by (simp add: words_counter_def popularity_items_ok Let_def)
qed

lemma dict_get_words_counter:
  assumes "words_counter data = Inr m"
  shows "dict_get m w 0 = real (count_list (get_words data) w) / real (length (get_words data))"
proof -
  from assms have m: "m = map (\<lambda>(x, y). (x, real y / real (length (get_words data)))) (Counter (get_words data))"
    by (simp add: words_counter_eq)
  show ?thesis
    by (simp add: m dict_get_def map_of_popularity map_of_Counter count_list_0_iff)
qed

lemma popularity_nonneg:
  assumes "words_counter data = Inr m"
  shows "0 \<le> dict_get m w 0"
  by (simp add: dict_get_words_counter [OF assms])

lemma popularity_pos_iff:
  assumes "words_counter data = Inr m"
  shows "0 < dict_get m w 0 \<longleftrightarrow> w \<in> set (get_words data)"
proof
  assume "0 < dict_get m w 0"
  then have "count_list (get_words data) w \<noteq> 0"
    by (auto simp: dict_get_words_counter [OF assms] intro: ccontr)
  then show "w \<in> set (get_words data)"
    by (simp add: count_list_0_iff)
next
  assume w: "w \<in> set (get_words data)"
  then have "count_list (get_words data) w \<noteq> 0" and "get_words data \<noteq> []"
    by (auto simp: count_list_0_iff)
  then have "0 < count_list (get_words data) w" "0 < length (get_words data)"
    by simp_all
  then show "0 < dict_get m w 0"
    by (simp add: dict_get_words_counter [OF assms])
qed

text \<open>
  C4: when the rows of a partition give at least one word, \<open>words_counter\<close> returns a
  map whose values sum to 1, each word of the partition being mapped to its number
  of occurrences divided by the number of all words, and no other word being a key.
\<close>

theorem words_counter_sums_to_one:
  assumes "get_words data \<noteq> []"
  shows "\<exists>m. words_counter data = Inr m \<and> sum_list (map snd m) = 1
           \<and> distinct (map fst m)
           \<and> (\<forall>w. map_of m w =
                 (if w \<in> set (get_words data)
                  then Some (real (count_list (get_words data) w) / real (length (get_words data)))
                  else None))"
proof -
  let ?n = "length (get_words data)"
  let ?m = "map (\<lambda>(x, y). (x, real y / real ?n)) (Counter (get_words data))"
  have "words_counter data = Inr ?m"
    by (rule words_counter_eq)
  moreover have "sum_list (map snd ?m) = 1"
    using assms by (simp only: sum_popularity sum_Counter) simp
  moreover have "distinct (map fst ?m)"
    by (simp only: fst_popularity distinct_Counter)
  moreover have "map_of ?m w =
      (if w \<in> set (get_words data) then Some (real (count_list (get_words data) w) / real ?n)
       else None)" for w
    by (simp add: map_of_popularity map_of_Counter)
  ultimately show ?thesis by blast
qed

theorem words_counter_sums_to_one_witness:
  "get_words [\<lparr>row_values = [''Name'', ''Age'', ''1990''], type = True\<rparr>,
              \<lparr>row_values = [''John Name'', ''34''], type = True\<rparr>] \<noteq> []
   \<and> words_counter [\<lparr>row_values = [''Name'', ''Age'', ''1990''], type = True\<rparr>,
                     \<lparr>row_values = [''John Name'', ''34''], type = True\<rparr>]
       = Inr [(''name'', 1 / 2), (''age'', 1 / 4), (''john'', 1 / 4)]
   \<and> sum_list (map snd [(''name'', 1 / 2 :: real), (''age'', 1 / 4), (''john'', 1 / 4)]) = 1"
proof -
  let ?data = "[\<lparr>row_values = [''Name'', ''Age'', ''1990''], type = True\<rparr>,
                \<lparr>row_values = [''John Name'', ''34''], type = True\<rparr>]"
  have ne: "get_words ?data \<noteq> []"
    by code_simp
  have eq: "words_counter ?data = Inr [(''name'', 1 / 2), (''age'', 1 / 4), (''john'', 1 / 4)]"
    by code_simp
  from words_counter_sums_to_one [OF ne] eq
  have "sum_list (map snd [(''name'', 1 / 2 :: real), (''age'', 1 / 4), (''john'', 1 / 4)]) = 1"
    by auto
  with ne eq show ?thesis by blast
qed

text \<open>
  C10 as the code has it: when the rows of a partition give no word, the dictionary
  comprehension of \<open>words_counter\<close> runs over no item, no division is made, and the
  empty map is returned.
\<close>

theorem words_counter_no_words:
  assumes "get_words data = []"
  shows "words_counter data = Inr []"
  using assms by (simp add: words_counter_def Counter_Nil Let_def)

theorem words_counter_no_words_witness:
  "get_words [\<lparr>row_values = [''1990'', '''', ''3.5''], type = False\<rparr>] = []
   \<and> words_counter [\<lparr>row_values = [''1990'', '''', ''3.5''], type = False\<rparr>] = Inr []"
proof -
  have e: "get_words [\<lparr>row_values = [''1990'', '''', ''3.5''], type = False\<rparr>] = []"
    by code_simp
  from e words_counter_no_words [OF e] show ?thesis by blast
qed

text \<open>
  The claim C10 as stated fails: on the partition with no rows \<open>words_counter\<close> does
  not raise a division by zero.
\<close>

theorem words_counter_empty_counterexample:
  "get_words [] = [] \<and> words_counter [] = Inr [] \<and> words_counter [] \<noteq> Inl ZeroDivisionError"
  by (simp add: get_words_def words_counter_def Counter_def)

section \<open>Properties of the word weight scorer\<close>

lemma all_words_partition:
  "all_words ds = set (get_words (data_headers ds)) \<union> set (get_words (data_others ds))"
  by (auto simp: all_words_def get_words_eq data_headers_def data_others_def)

lemma weight_bounds:
  fixes h o' :: real
  assumes "0 \<le> h" "0 \<le> o'" "0 < h + o'"
  shows "- 1 \<le> (h - o') / (h + o')" and "(h - o') / (h + o') \<le> 1"
    and "(h - o') / (h + o') = 1 \<longleftrightarrow> 0 < h \<and> o' = 0"
    and "(h - o') / (h + o') = - 1 \<longleftrightarrow> 0 < o' \<and> h = 0"
proof -
  from assms(3) have nz: "h + o' \<noteq> 0" by simp
  show "- 1 \<le> (h - o') / (h + o')"
    using assms by (simp add: pos_le_divide_eq)
  show "(h - o') / (h + o') \<le> 1"
    using assms by (simp add: pos_divide_le_eq)
  show "(h - o') / (h + o') = 1 \<longleftrightarrow> 0 < h \<and> o' = 0"
    using assms nz by (auto simp: divide_eq_eq)
  show "(h - o') / (h + o') = - 1 \<longleftrightarrow> 0 < o' \<and> h = 0"
    using assms nz by (auto simp: divide_eq_eq)
qed

text \<open>The loop over \<open>all_words\<close> returns a map when each of its divisions succeeds.\<close>

lemma word_weights_loop_total:
  assumes "\<forall>w \<in> set ws. \<exists>v. weight header_words other_words w = Inr v"
  shows "\<exists>m. word_weights_loop header_words other_words ws word_weights = Inr m
           \<and> dom m = dom word_weights \<union> set ws"
  using assms
proof (induction ws arbitrary: word_weights)
  case Nil
  then show ?case by simp
next
  case (Cons w ws)
  from Cons.prems obtain v where v: "weight header_words other_words w = Inr v"
    by auto
  from Cons.prems have "\<forall>w \<in> set ws. \<exists>v. weight header_words other_words w = Inr v"
    by simp
  from Cons.IH [OF this, of "word_weights(w \<mapsto> v)"] obtain m
    where m: "word_weights_loop header_words other_words ws (word_weights(w \<mapsto> v)) = Inr m"
      "dom m = dom (word_weights(w \<mapsto> v)) \<union> set ws"
    by blast
  have "word_weights_loop header_words other_words (w # ws) word_weights = Inr m"
    by (simp add: v m(1))
  moreover have "dom m = dom word_weights \<union> set (w # ws)"
    using m(2) by auto
  ultimately show ?case by blast
qed

text \<open>
  C2: for popularity maps built by \<open>words_counter\<close> and a word whose two popularities
  (0 for an absent word) have a positive sum, the weight is computed without error,
  lies between -1 and 1, is 1 exactly when the word has a positive header popularity
  and other popularity 0, and is -1 exactly when it has a positive other popularity
  and header popularity 0; a popularity is positive exactly for the words of its
  partition.
\<close>

theorem weight_range:
  assumes "words_counter headers = Inr header_words"
    and "words_counter others = Inr other_words"
    and "h = dict_get header_words word 0"
    and "o' = dict_get other_words word 0"
    and "0 < h + o'"
  shows "weight header_words other_words word = Inr ((h - o') / (h + o'))
    \<and> - 1 \<le> (h - o') / (h + o') \<and> (h - o') / (h + o') \<le> 1
    \<and> ((h - o') / (h + o') = 1 \<longleftrightarrow> 0 < h \<and> o' = 0)
    \<and> ((h - o') / (h + o') = - 1 \<longleftrightarrow> 0 < o' \<and> h = 0)
    \<and> (0 < h \<longleftrightarrow> word \<in> set (get_words headers))
    \<and> (0 < o' \<longleftrightarrow> word \<in> set (get_words others))"
proof -
  have h0: "0 \<le> h" and o0: "0 \<le> o'"
    using assms(1-4) by (simp_all add: popularity_nonneg)
  have "weight header_words other_words word = Inr ((h - o') / (h + o'))"
    using assms(3-5) by (simp add: weight_def truediv_def Let_def)
  moreover have "0 < h \<longleftrightarrow> word \<in> set (get_words headers)"
    using popularity_pos_iff [OF assms(1)] assms(3) by simp
  moreover have "0 < o' \<longleftrightarrow> word \<in> set (get_words others)"
    using popularity_pos_iff [OF assms(2)] assms(4) by simp
  ultimately show ?thesis
    using weight_bounds [OF h0 o0 assms(5)] by blast
qed

theorem weight_range_witness:
  "words_counter [\<lparr>row_values = [''Name'', ''Age''], type = True\<rparr>]
     = Inr [(''name'', 1 / 2), (''age'', 1 / 2)]
   \<and> words_counter [\<lparr>row_values = [''John Name'', ''34''], type = False\<rparr>]
     = Inr [(''john'', 1 / 2), (''name'', 1 / 2)]
   \<and> weight [(''name'', 1 / 2), (''age'', 1 / 2)] [(''john'', 1 / 2), (''name'', 1 / 2)] ''age''
     = Inr 1"
proof -
  let ?hw = "[(''name'', 1 / 2 :: real), (''age'', 1 / 2)]"
  let ?ow = "[(''john'', 1 / 2 :: real), (''name'', 1 / 2)]"
  have a: "words_counter [\<lparr>row_values = [''Name'', ''Age''], type = True\<rparr>] = Inr ?hw"
    by code_simp
  have b: "words_counter [\<lparr>row_values = [''John Name'', ''34''], type = False\<rparr>] = Inr ?ow"
    by code_simp
  have h: "(1 / 2 :: real) = dict_get ?hw ''age'' 0"
    by (simp add: dict_get_def)
  have o: "(0 :: real) = dict_get ?ow ''age'' 0"
    by (simp add: dict_get_def)
  have p: "(0 :: real) < 1 / 2 + 0"
    by simp
  from weight_range [OF a b h o p] have "weight ?hw ?ow ''age'' = Inr 1"
    by simp
  with a b show ?thesis by blast
qed

text \<open>
  C5: when both popularity maps were built, every word of \<open>all_words\<close> has a positive
  sum of header and other popularity, and the division of the weight loop succeeds.
\<close>

theorem all_words_positive_popularity:
  assumes "words_counter (data_headers data_sampled) = Inr header_words"
    and "words_counter (data_others data_sampled) = Inr other_words"
    and "word \<in> all_words data_sampled"
  shows "0 < dict_get header_words word 0 + dict_get other_words word 0
    \<and> weight header_words other_words word
        = Inr ((dict_get header_words word 0 - dict_get other_words word 0)
               / (dict_get header_words word 0 + dict_get other_words word 0))"
proof -
  let ?h = "dict_get header_words word 0" and ?o = "dict_get other_words word 0"
  have "0 \<le> ?h" "0 \<le> ?o"
    using assms(1,2) by (simp_all add: popularity_nonneg)
  moreover have "0 < ?h \<or> 0 < ?o"
    using assms(3) popularity_pos_iff [OF assms(1)] popularity_pos_iff [OF assms(2)]
    by (simp add: all_words_partition)
  ultimately have pos: "0 < ?h + ?o" by linarith
  then show ?thesis
    by (simp add: weight_def truediv_def Let_def)
qed

theorem all_words_positive_popularity_witness:
  "''name'' \<in> all_words [\<lparr>row_values = [''Name'', ''Age''], type = True\<rparr>,
                          \<lparr>row_values = [''John Name'', ''34''], type = False\<rparr>]
   \<and> (0 :: real) < dict_get [(''name'', 1 / 2), (''age'', 1 / 2)] ''name'' 0
                     + dict_get [(''john'', 1 / 2), (''name'', 1 / 2)] ''name'' 0
   \<and> weight [(''name'', 1 / 2), (''age'', 1 / 2)] [(''john'', 1 / 2), (''name'', 1 / 2)] ''name''
     = Inr 0"
proof -
  let ?ds = "[\<lparr>row_values = [''Name'', ''Age''], type = True\<rparr>,
              \<lparr>row_values = [''John Name'', ''34''], type = False\<rparr>]"
  let ?hw = "[(''name'', 1 / 2 :: real), (''age'', 1 / 2)]"
  let ?ow = "[(''john'', 1 / 2 :: real), (''name'', 1 / 2)]"
  have a: "words_counter (data_headers ?ds) = Inr ?hw"
    by code_simp
  have b: "words_counter (data_others ?ds) = Inr ?ow"
    by code_simp
  have c: "''name'' \<in> all_words ?ds"
    by code_simp
  have d: "dict_get ?hw ''name'' 0 = 1 / 2" "dict_get ?ow ''name'' 0 = 1 / 2"
    by (simp_all add: dict_get_def)
  from all_words_positive_popularity [OF a b c] c show ?thesis
    by (simp add: d)
qed

section \<open>Properties of the feature extractor\<close>







lemma np_str_no_nul: "CHR 0x00 \<notin> set v \<Longrightarrow> np_str v = v"
proof -
  assume "CHR 0x00 \<notin> set v"
  then have "dropWhile (\<lambda>c. c = CHR 0x00) (rev v) = rev v"
    by (cases "rev v") (auto simp: in_set_conv_decomp)
  then show ?thesis by (simp add: np_str_def)
qed









text \<open>
  C1 on the code: the first feature loop has no length check. For a row with no
  values the division of \<open>sparsity\<close> is NumPy's and gives \<open>nan\<close>, and then
  \<open>np.vectorize\<close> refuses the empty array, so the round raises. The two later loops
  test the length first and never raise.
\<close>

theorem first_features_of_empty_row_raises:
  "first_features_of \<lparr>row_values = [], type = False\<rparr> = Inl ValueError"
  by (simp add: first_features_of_def np_vectorize_def np_array_def)

text \<open>
  C3 on the code: the test of \<open>long_ints\<close> removes one decimal point before asking for
  digits only, and measures the length of the value with its point. The values
  \<open>123.45\<close> and \<open>1.234\<close> are counted, \<open>1990\<close> is not.
\<close>

theorem long_ints_counts_decimal_point:
  "first_features_of \<lparr>row_values = [''123.45'', ''1.234'', ''1990''], type = False\<rparr>
     = Inr \<lparr>f_type = False, f_size = 3, f_sparsity = Num 0,
            f_floats_N = Num (2 / 3), f_long_ints = Num (2 / 3)\<rparr>"
  by code_simp




end
